theory Spec2Isabelle
  imports Main "HOL-Library.Sublist"
begin

section \<open>JSON documents and JavaScript objects\<close>

text \<open>
  The translation files hold JSON objects whose leaves are strings or arrays of strings
  (the data model of the synchronisation engine).  An object is kept as the list of its
  entries in enumeration order, which is the order of \<^verbatim>\<open>Object.keys\<close>; the keys of an
  object are distinct.  (Keys that look like array indices, which JavaScript enumerates
  first, are not distinguished.)
\<close>

datatype json = JStr string | JArr "string list" | JObj "(string \<times> json) list"

type_synonym jobject = "(string \<times> json) list"

definition object_keys :: "jobject \<Rightarrow> string list" where
  \<comment> \<open>\<^verbatim>\<open>Object.keys(obj)\<close>\<close>
  "object_keys obj = map fst obj"

definition obj_get :: "jobject \<Rightarrow> string \<Rightarrow> json option" where
  \<comment> \<open>\<^verbatim>\<open>obj[key]\<close>; \<open>None\<close> is \<^verbatim>\<open>undefined\<close>\<close>
  "obj_get obj key = map_of obj key"

fun obj_set :: "jobject \<Rightarrow> string \<Rightarrow> json \<Rightarrow> jobject" where
  \<comment> \<open>\<^verbatim>\<open>obj[key] = v\<close>: an existing key keeps its place, a new key goes last\<close>
  "obj_set [] key v = [(key, v)]"
| "obj_set ((k, x) # rest) key v =
     (if k = key then (k, v) # rest else (k, x) # obj_set rest key v)"

definition spread :: "jobject \<Rightarrow> jobject \<Rightarrow> jobject" where
  \<comment> \<open>\<^verbatim>\<open>{ ...a, ...b }\<close>\<close>
  "spread a b = foldl (\<lambda>acc (k, v). obj_set acc k v) a b"

section \<open>JavaScript strings\<close>

fun str_includes :: "string \<Rightarrow> string \<Rightarrow> bool" where
  \<comment> \<open>\<^verbatim>\<open>s.includes(sub)\<close>\<close>
  "str_includes [] sub = (sub = [])"
| "str_includes (c # cs) sub = (prefix sub (c # cs) \<or> str_includes cs sub)"

fun join :: "string list \<Rightarrow> string \<Rightarrow> string" where
  \<comment> \<open>\<^verbatim>\<open>xs.join(sep)\<close>\<close>
  "join [] sep = []"
| "join [x] sep = x"
| "join (x # y # ys) sep = x @ sep @ join (y # ys) sep"

fun splitAux :: "string \<Rightarrow> string \<Rightarrow> string \<Rightarrow> string list" where
  \<comment> \<open>scans for the next occurrence of a non-empty separator, left to right\<close>
  "splitAux sep acc [] = [rev acc]"
| "splitAux sep acc (c # cs) =
     (if sep \<noteq> [] \<and> prefix sep (c # cs)
      then rev acc # splitAux sep [] (drop (length sep - 1) cs)
      else splitAux sep (c # acc) cs)"

definition split :: "string \<Rightarrow> string \<Rightarrow> string list" where
  \<comment> \<open>\<^verbatim>\<open>s.split(sep)\<close>\<close>
  "split s sep = (if sep = [] then map (\<lambda>c. [c]) s else splitAux sep [] s)"

section \<open>Errors\<close>

text \<open>
  What ends a run early: the errors that \<open>translate\<close> throws, the exit after invalid
  keys, a rejected call of the translation service, and the type error of calling
  \<^verbatim>\<open>.split\<close> on a value that is not a string.
\<close>

datatype error =
    SourceLanguageMissing
  | ServiceMissing
  | MatcherMissing
  | NoSourceFiles
  | SourceLanguageUnsupported
  | InvalidKeysExit
  | ProviderFailure
  | TypeError

section \<open>util/array-as-string.ts\<close>

text \<open>
  Both functions are called with an object, so their guard \<^verbatim>\<open>if (!obj) return obj\<close> is
  passed.  They walk \<^verbatim>\<open>Object.keys(obj)\<close> and assign into \<open>obj\<close>.
\<close>

definition sepKey :: string where
  "sepKey = '' <sep /> ''"

definition arrayToString :: "jobject \<Rightarrow> jobject" where
  \<comment> \<open>the object after the call; the call changes its argument in place and returns it\<close>
  "arrayToString obj =
     foldl (\<lambda>ob key. case obj_get ob key of
                         Some (JArr xs) \<Rightarrow> obj_set ob key (JStr (join xs sepKey))
                       | _ \<Rightarrow> ob)
       obj (object_keys obj)"

definition stringToArray_step :: "error + jobject \<Rightarrow> string \<Rightarrow> error + jobject" where
  \<comment> \<open>one round of the \<^verbatim>\<open>forEach\<close>; \<^verbatim>\<open>.split\<close> exists on strings only\<close>
  "stringToArray_step r key =
     (case r of
        Inl e \<Rightarrow> Inl e
      | Inr ob \<Rightarrow>
          (case obj_get ob key of
             Some (JStr s) \<Rightarrow>
               (let splitted = split s sepKey
                in Inr (obj_set ob key
                     (case splitted of [x] \<Rightarrow> JStr x | _ \<Rightarrow> JArr splitted)))
           | _ \<Rightarrow> Inl TypeError))"

definition stringToArray :: "jobject \<Rightarrow> error + jobject" where
  "stringToArray obj = foldl stringToArray_step (Inr obj) (object_keys obj)"

section \<open>util/file-system.ts: file type detection\<close>

datatype FileType = KeyBased | Natural | Auto

definition isString :: "json option \<Rightarrow> bool" where
  \<comment> \<open>\<^verbatim>\<open>typeof v === 'string'\<close>\<close>
  "isString v = (case v of Some (JStr _) \<Rightarrow> True | _ \<Rightarrow> False)"

definition detectFileType :: "jobject \<Rightarrow> FileType" where
  "detectFileType json =
     (let invalidKeys =
            filter (\<lambda>k. isString (obj_get json k) \<and> (str_includes k ''.'' \<or> str_includes k '' ''))
              (object_keys json)
      in if length invalidKeys > 0 then Natural else KeyBased)"


section \<open>The flatten codec\<close>

text \<open>
  \<^verbatim>\<open>flatten.convert\<close> and \<^verbatim>\<open>flatten.undo\<close> come from the \<^verbatim>\<open>flattenjs\<close> package, which is
  not among the sources.  They are written here after section 4.2 of the specification:
  \<open>convert\<close> gives one flat entry per leaf, keyed by the dot-joined path of the object keys
  that lead to the leaf; \<open>undo\<close> inverts the joining of paths and nothing else.
\<close>

fun flatten_entries :: "string list \<Rightarrow> jobject \<Rightarrow> jobject \<Rightarrow> jobject" where
  \<comment> \<open>Modelled from the spec: the walk of \<^verbatim>\<open>flatten.convert\<close> (package flattenjs) below
      \<open>path\<close>, adding to \<open>result\<close>\<close>
  "flatten_entries path [] result = result"
| "flatten_entries path ((k, v) # rest) result =
     flatten_entries path rest
       (case v of
          JObj kids \<Rightarrow> flatten_entries (path @ [k]) kids result
        | _ \<Rightarrow> obj_set result (join (path @ [k]) ''.'') v)"

definition flatten_convert :: "jobject \<Rightarrow> jobject" where
  \<comment> \<open>Modelled from the spec: \<^verbatim>\<open>flatten.convert\<close> of the package flattenjs\<close>
  "flatten_convert obj = flatten_entries [] obj []"

fun set_path :: "jobject \<Rightarrow> string list \<Rightarrow> json \<Rightarrow> jobject" where
  \<comment> \<open>Modelled from the spec: \<^verbatim>\<open>flatten.undo\<close> (package flattenjs) placing one leaf\<close>
  "set_path obj [] v = obj"
| "set_path obj [k] v = obj_set obj k v"
| "set_path obj (k # ks) v =
     obj_set obj k
       (JObj (set_path (case obj_get obj k of Some (JObj kids) \<Rightarrow> kids | _ \<Rightarrow> []) ks v))"

definition flatten_undo :: "jobject \<Rightarrow> jobject" where
  \<comment> \<open>Modelled from the spec: \<^verbatim>\<open>flatten.undo\<close> of the package flattenjs\<close>
  "flatten_undo flat = foldl (\<lambda>acc (k, v). set_path acc (split k ''.'') v) [] flat"

section \<open>The file system, the module cache and the report\<close>

text \<open>
  The working directory holds one directory per language, each with its files in the
  order of \<^verbatim>\<open>readdirSync\<close>.  A file is kept as the JSON object that \<^verbatim>\<open>JSON.stringify\<close>
  wrote and that \<^verbatim>\<open>require\<close> parses.  \<^verbatim>\<open>require\<close> keeps every module it has loaded in a
  cache and hands out the same object on every later call for the same path, so a parsed
  document is a shared mutable object: the cache is the store, a path is the address.
  The functions on the file system are called for directories that \<^verbatim>\<open>readdirSync\<close> has
  listed.
\<close>

type_synonym path = "string \<times> string"

datatype event =
    Written string string jobject
  | Unlinked string string
  | Skipped string
  | Translated string string nat "nat option"

record world =
  disk :: "(string \<times> (string \<times> jobject) list) list"
  modules :: "path \<Rightarrow> jobject option"
  events :: "event list"

definition readdirSync :: "world \<Rightarrow> string \<Rightarrow> string list" where
  "readdirSync w directory =
     (case map_of (disk w) directory of Some files \<Rightarrow> map fst files | None \<Rightarrow> [])"

definition readFile :: "world \<Rightarrow> path \<Rightarrow> jobject option" where
  "readFile w p =
     (case map_of (disk w) (fst p) of Some files \<Rightarrow> map_of files (snd p) | None \<Rightarrow> None)"

fun file_set :: "(string \<times> jobject) list \<Rightarrow> string \<Rightarrow> jobject \<Rightarrow> (string \<times> jobject) list" where
  "file_set [] f doc = [(f, doc)]"
| "file_set ((g, old) # rest) f doc =
     (if g = f then (g, doc) # rest else (g, old) # file_set rest f doc)"

definition writeFileSync :: "path \<Rightarrow> jobject \<Rightarrow> world \<Rightarrow> world" where
  "writeFileSync p doc w =
     w\<lparr>disk := map (\<lambda>(l, files). if l = fst p then (l, file_set files (snd p) doc) else (l, files))
                (disk w),
       events := events w @ [Written (fst p) (snd p) doc]\<rparr>"

definition unlinkSync :: "path \<Rightarrow> world \<Rightarrow> world" where
  "unlinkSync p w =
     w\<lparr>disk := map (\<lambda>(l, files). if l = fst p then (l, filter (\<lambda>(g, doc). g \<noteq> snd p) files)
                               else (l, files))
                (disk w),
       events := events w @ [Unlinked (fst p) (snd p)]\<rparr>"

definition require :: "path \<Rightarrow> world \<Rightarrow> world" where
  \<comment> \<open>the world after \<^verbatim>\<open>require(path)\<close>; the object returned is the one cached at \<open>p\<close>\<close>
  "require p w =
     (case modules w p of
        Some obj \<Rightarrow> w
      | None \<Rightarrow> (case readFile w p of
                   Some doc \<Rightarrow> w\<lparr>modules := (modules w)(p \<mapsto> doc)\<rparr>
                 | None \<Rightarrow> w))"

definition deref :: "world \<Rightarrow> path \<Rightarrow> jobject" where
  \<comment> \<open>the object at an address that \<open>require\<close> has returned\<close>
  "deref w p = (case modules w p of Some obj \<Rightarrow> obj | None \<Rightarrow> [])"

definition arrayToString_at :: "path \<Rightarrow> world \<Rightarrow> world" where
  \<comment> \<open>\<^verbatim>\<open>arrayToString(obj)\<close> for the object at \<open>p\<close>: the assignments go to that object\<close>
  "arrayToString_at p w = w\<lparr>modules := (modules w)(p \<mapsto> arrayToString (deref w p))\<rparr>"

section \<open>util/file-system.ts: loading\<close>

datatype objref = Module path | Own jobject

record TranslationFile =
  name :: string
  originalContent :: path
  ftype :: FileType
  content :: objref

definition read_ref :: "world \<Rightarrow> objref \<Rightarrow> jobject" where
  "read_ref w r = (case r of Module p \<Rightarrow> deref w p | Own obj \<Rightarrow> obj)"

definition getAvailableLanguages :: "world \<Rightarrow> string list" where
  "getAvailableLanguages w = map fst (disk w)"

definition loadFile :: "string \<Rightarrow> FileType \<Rightarrow> string \<Rightarrow> world \<Rightarrow> TranslationFile \<times> world" where
  "loadFile directory fileType f w =
     (let p = (directory, f);
          w1 = require p w;
          t = (if fileType = Auto then detectFileType (deref w1 p) else fileType)
      in if t = KeyBased
         then (let w2 = arrayToString_at p (require p w1)
               in (\<lparr>name = f, originalContent = p, ftype = t,
                     content = Own (flatten_convert (deref w2 p))\<rparr>, w2))
         else (\<lparr>name = f, originalContent = p, ftype = t, content = Module p\<rparr>,
               require p w1))"

fun loadFiles :: "string \<Rightarrow> FileType \<Rightarrow> string list \<Rightarrow> world \<Rightarrow> TranslationFile list \<times> world" where
  "loadFiles directory fileType [] w = ([], w)"
| "loadFiles directory fileType (f # fs) w =
     (case loadFile directory fileType f w of
        (file, w1) \<Rightarrow>
          (case loadFiles directory fileType fs w1 of
             (files, w2) \<Rightarrow> (file # files, w2)))"

definition loadTranslations :: "string \<Rightarrow> FileType \<Rightarrow> world \<Rightarrow> TranslationFile list \<times> world" where
  "loadTranslations directory fileType w =
     loadFiles directory fileType
       (filter (\<lambda>f. suffix ''.json'' f) (readdirSync w directory)) w"

definition fixedContent :: "jobject \<Rightarrow> jobject" where
  "fixedContent c = foldl (\<lambda>acc cur. obj_set acc cur (JStr cur)) [] (object_keys c)"

definition fixSourceInconsistencies :: "string \<Rightarrow> world \<Rightarrow> world" where
  "fixSourceInconsistencies directory w =
     (case loadTranslations directory Auto w of
        (loaded, w1) \<Rightarrow>
          foldl (\<lambda>acc file.
                   writeFileSync (directory, name file)
                     (fixedContent (read_ref acc (content file))) acc)
            w1 (filter (\<lambda>f. ftype f = Natural) loaded))"


section \<open>index.ts: the orchestrator\<close>

text \<open>
  A translation service is an entry of \<^verbatim>\<open>serviceMap\<close>: its list of languages and its
  \<^verbatim>\<open>translateStrings\<close>, which answers with pairs of key and translation, or fails
  (\<open>None\<close>, a rejected promise).  The value of a string to translate is whatever the
  template holds (\<open>None\<close> is \<^verbatim>\<open>undefined\<close>).
\<close>

record TranslationService =
  availableLanguages :: "string list"
  translateStrings :: "(string \<times> json option) list \<Rightarrow> string \<Rightarrow> string \<Rightarrow> (string \<times> string) list option"

definition langCode :: "string \<Rightarrow> string" where
  \<comment> \<open>\<^verbatim>\<open>lang.split('-').pop()\<close>\<close>
  "langCode lang = (case rev (split lang ''-'') of [] \<Rightarrow> [] | x # rest \<Rightarrow> x)"

definition stringsToTranslate :: "FileType \<Rightarrow> jobject \<Rightarrow> string list \<Rightarrow> (string \<times> json option) list" where
  "stringsToTranslate templateType templateContent existingKeys =
     map (\<lambda>key. (key,
            if templateType = KeyBased
            then (case obj_get templateContent key of
                    Some (JArr xs) \<Rightarrow> Some (JStr (join xs '' ''))
                  | v \<Rightarrow> v)
            else Some (JStr key)))
       (filter (\<lambda>key. key \<notin> set existingKeys) (object_keys templateContent))"

definition unusedStrings :: "string list \<Rightarrow> string list \<Rightarrow> string list" where
  "unusedStrings existingKeys templateStrings =
     filter (\<lambda>key. key \<notin> set templateStrings) existingKeys"

definition newKeys :: "(string \<times> string) list \<Rightarrow> jobject" where
  "newKeys translatedStrings =
     foldl (\<lambda>acc (key, translated). obj_set acc key (JStr translated)) [] translatedStrings"

definition omit :: "jobject \<Rightarrow> string list \<Rightarrow> jobject" where
  \<comment> \<open>\<^verbatim>\<open>omit\<close> of lodash, for keys that are own keys of the object\<close>
  "omit obj ks = filter (\<lambda>(k, v). k \<notin> set ks) obj"

definition translatedFile :: "bool \<Rightarrow> jobject \<Rightarrow> string list \<Rightarrow> jobject \<Rightarrow> jobject" where
  "translatedFile deleteUnusedStrings existingTranslations unused new =
     spread (omit existingTranslations (if deleteUnusedStrings then unused else [])) new"

definition emitted :: "FileType \<Rightarrow> jobject \<Rightarrow> jobject" where
  \<comment> \<open>the document handed to \<^verbatim>\<open>JSON.stringify\<close>\<close>
  "emitted templateType file = (if templateType = KeyBased then flatten_undo file else file)"

definition translateFile ::
  "bool \<Rightarrow> string \<Rightarrow> TranslationService \<Rightarrow> string \<Rightarrow> string \<Rightarrow> TranslationFile list
     \<Rightarrow> TranslationFile \<Rightarrow> world \<Rightarrow> error option \<times> world" where
  "translateFile deleteUnusedStrings service translationService sourceLang language
       existingFiles templateFile w =
     (let languageFile = find (\<lambda>f. name f = name templateFile) existingFiles;
          existingTranslations =
            (case languageFile of Some f \<Rightarrow> read_ref w (content f) | None \<Rightarrow> []);
          existingKeys = object_keys existingTranslations;
          templateContent = read_ref w (content templateFile);
          templateStrings = object_keys templateContent;
          toTranslate = stringsToTranslate (ftype templateFile) templateContent existingKeys;
          unused = unusedStrings existingKeys templateStrings
      in case translateStrings translationService toTranslate
                (langCode sourceLang) (langCode language) of
           None \<Rightarrow> (Some ProviderFailure, w)
         | Some translatedStrings \<Rightarrow>
             (let w1 = (if service \<noteq> ''dryRun''
                        then writeFileSync (language, name templateFile)
                               (emitted (ftype templateFile)
                                  (translatedFile deleteUnusedStrings existingTranslations
                                     unused (newKeys translatedStrings))) w
                        else w)
              in (None,
                  w1\<lparr>events := events w1 @
                       [Translated language (name templateFile) (length translatedStrings)
                          (if deleteUnusedStrings \<and> length unused > 0
                           then Some (length unused) else None)]\<rparr>)))"

fun translateFiles ::
  "bool \<Rightarrow> string \<Rightarrow> TranslationService \<Rightarrow> string \<Rightarrow> string \<Rightarrow> TranslationFile list
     \<Rightarrow> TranslationFile list \<Rightarrow> world \<Rightarrow> error option \<times> world" where
  "translateFiles deleteUnusedStrings service translationService sourceLang language
       existingFiles [] w = (None, w)"
| "translateFiles deleteUnusedStrings service translationService sourceLang language
       existingFiles (templateFile # rest) w =
     (case translateFile deleteUnusedStrings service translationService sourceLang language
             existingFiles templateFile w of
        (Some e, w1) \<Rightarrow> (Some e, w1)
      | (None, w1) \<Rightarrow>
          translateFiles deleteUnusedStrings service translationService sourceLang language
            existingFiles rest w1)"

definition deleteUnusedFiles :: "string \<Rightarrow> TranslationFile list \<Rightarrow> TranslationFile list \<Rightarrow> world \<Rightarrow> world" where
  "deleteUnusedFiles language templateFiles existingFiles w =
     (let templateFileNames = map name templateFiles;
          deletableFiles = filter (\<lambda>f. name f \<notin> set templateFileNames) existingFiles
      in foldl (\<lambda>acc file. unlinkSync (language, name file) acc) w deletableFiles)"

definition translateLanguage ::
  "bool \<Rightarrow> FileType \<Rightarrow> string \<Rightarrow> TranslationService \<Rightarrow> string \<Rightarrow> TranslationFile list
     \<Rightarrow> string \<Rightarrow> world \<Rightarrow> error option \<times> world" where
  "translateLanguage deleteUnusedStrings fileType service translationService sourceLang
       templateFiles language w =
     (if language \<notin> set (availableLanguages translationService)
      then (None, w\<lparr>events := events w @ [Skipped language]\<rparr>)
      else (case loadTranslations language fileType w of
              (existingFiles, w1) \<Rightarrow>
                translateFiles deleteUnusedStrings service translationService sourceLang
                  language existingFiles templateFiles
                  (if deleteUnusedStrings
                   then deleteUnusedFiles language templateFiles existingFiles w1
                   else w1)))"

fun translateLanguages ::
  "bool \<Rightarrow> FileType \<Rightarrow> string \<Rightarrow> TranslationService \<Rightarrow> string \<Rightarrow> TranslationFile list
     \<Rightarrow> string list \<Rightarrow> world \<Rightarrow> error option \<times> world" where
  "translateLanguages deleteUnusedStrings fileType service translationService sourceLang
       templateFiles [] w = (None, w)"
| "translateLanguages deleteUnusedStrings fileType service translationService sourceLang
       templateFiles (language # rest) w =
     (case translateLanguage deleteUnusedStrings fileType service translationService sourceLang
             templateFiles language w of
        (Some e, w1) \<Rightarrow> (Some e, w1)
      | (None, w1) \<Rightarrow>
          translateLanguages deleteUnusedStrings fileType service translationService sourceLang
            templateFiles rest w1)"

definition inconsistentKeys :: "jobject \<Rightarrow> string list" where
  "inconsistentKeys c = filter (\<lambda>key. Some (JStr key) \<noteq> obj_get c key) (object_keys c)"

definition inconsistentFiles :: "world \<Rightarrow> TranslationFile list \<Rightarrow> string list" where
  "inconsistentFiles w templateFiles =
     map name
       (filter (\<lambda>file. length (inconsistentKeys (read_ref w (content file))) > 0)
          (filter (\<lambda>f. ftype f = Natural) templateFiles))"

definition checkInconsistencies :: "bool \<Rightarrow> string \<Rightarrow> TranslationFile list \<Rightarrow> world \<Rightarrow> world" where
  "checkInconsistencies fixInconsistencies sourceLang templateFiles w =
     (if length (inconsistentFiles w templateFiles) > 0 \<and> fixInconsistencies
      then fixSourceInconsistencies sourceLang w
      else w)"

definition invalidKeys :: "jobject \<Rightarrow> string list" where
  "invalidKeys original =
     filter (\<lambda>k. isString (obj_get original k) \<and> str_includes k ''.'') (object_keys original)"

definition invalidFiles :: "world \<Rightarrow> TranslationFile list \<Rightarrow> string list" where
  "invalidFiles w templateFiles =
     map name
       (filter (\<lambda>file. length (invalidKeys (deref w (originalContent file))) > 0)
          (filter (\<lambda>f. ftype f = KeyBased) templateFiles))"

definition translate ::
  "(string \<times> TranslationService) list \<Rightarrow> string list \<Rightarrow> string \<Rightarrow> bool \<Rightarrow> FileType \<Rightarrow> bool
     \<Rightarrow> string \<Rightarrow> string \<Rightarrow> world \<Rightarrow> error option \<times> world" where
  "translate serviceMap matcherMap sourceLang deleteUnusedStrings fileType fixInconsistencies
       service matcher w =
     (let languageFolders = getAvailableLanguages w;
          targetLanguages = filter (\<lambda>f. f \<noteq> sourceLang) languageFolders
      in if sourceLang \<notin> set languageFolders then (Some SourceLanguageMissing, w)
         else case map_of serviceMap service of
           None \<Rightarrow> (Some ServiceMissing, w)
         | Some translationService \<Rightarrow>
             if matcher \<notin> set matcherMap then (Some MatcherMissing, w)
             else case loadTranslations sourceLang fileType w of
               (templateFiles, w1) \<Rightarrow>
                 if length templateFiles = 0 then (Some NoSourceFiles, w1)
                 else if sourceLang \<notin> set (availableLanguages translationService)
                 then (Some SourceLanguageUnsupported, w1)
                 else (let w2 = checkInconsistencies fixInconsistencies sourceLang
                                  templateFiles w1
                       in if length (invalidFiles w2 templateFiles) > 0
                          then (Some InvalidKeysExit, w2)
                          else translateLanguages deleteUnusedStrings fileType service
                                 translationService sourceLang templateFiles
                                 targetLanguages w2))"

section \<open>Example services and working directories\<close>

text \<open>
  Two services for the example runs: one that gives every string back as its own
  translation, and one that translates nothing.
\<close>

definition echoService :: TranslationService where
  "echoService =
     \<lparr>availableLanguages = [''en'', ''fr''],
      translateStrings = (\<lambda>items sourceCode targetCode.
         Some (map (\<lambda>(key, v). (key, case v of Some (JStr s) \<Rightarrow> s | _ \<Rightarrow> [])) items))\<rparr>"

definition dryRunService :: TranslationService where
  "dryRunService =
     \<lparr>availableLanguages = [''en'', ''fr''],
      translateStrings = (\<lambda>items sourceCode targetCode. Some [])\<rparr>"

definition world_inconsistent :: world where
  "world_inconsistent =
     \<lparr>disk = [(''en'', [(''ui.json'', [(''Save file'', JStr ''Guardar archivo'')])]),
              (''fr'', [])],
      modules = Map.empty, events = []\<rparr>"

definition world_lists :: world where
  "world_lists =
     \<lparr>disk = [(''en'', [(''list.json'', [(''items'', JArr [''a'', ''b''])])]),
              (''fr'', [(''list.json'', [(''items'', JArr [''x'', ''y''])])])],
      modules = Map.empty, events = []\<rparr>"

definition world_obsolete :: world where
  "world_obsolete =
     \<lparr>disk = [(''en'', [(''app.json'', [(''title'', JStr ''Hello'')])]),
              (''fr'', [(''app.json'', [(''title'', JStr ''Bonjour'')]),
                        (''old.json'', [(''x'', JStr ''y'')])])],
      modules = Map.empty, events = []\<rparr>"

definition world_german :: world where
  "world_german =
     \<lparr>disk = [(''de'', [(''app.json'', [(''title'', JStr ''Hallo'')])]),
              (''en'', [(''app.json'', [(''title'', JStr ''Hello'')])])],
      modules = Map.empty, events = []\<rparr>"

section \<open>Notions used in the statements\<close>

text \<open>
  \<open>encoded\<close> is what \<open>arrayToString\<close> leaves in place of a value.  \<open>leaves\<close> lists the leaves
  of a nested object with the paths of keys that lead to them, in the order of a walk, and
  \<open>flatOf\<close> keys every leaf by its path joined with periods.  A key is plain when it holds
  no period and no bracket.  An object is well formed when at every level its keys are
  distinct and plain and no nested object is empty.
\<close>

definition encoded :: "json \<Rightarrow> json" where
  "encoded v = (case v of JArr xs \<Rightarrow> JStr (join xs sepKey) | _ \<Rightarrow> v)"

fun leaves :: "jobject \<Rightarrow> (string list \<times> json) list" where
  "leaves [] = []"
| "leaves ((k, v) # rest) =
     (case v of JObj kids \<Rightarrow> map (\<lambda>(p, x). (k # p, x)) (leaves kids) | _ \<Rightarrow> [([k], v)])
     @ leaves rest"

definition flatOf :: "jobject \<Rightarrow> jobject" where
  "flatOf obj = map (\<lambda>(p, v). (join p ''.'', v)) (leaves obj)"

definition kidsAt :: "jobject \<Rightarrow> string \<Rightarrow> jobject" where
  "kidsAt obj k = (case obj_get obj k of Some (JObj kids) \<Rightarrow> kids | _ \<Rightarrow> [])"

definition plainKey :: "string \<Rightarrow> bool" where
  "plainKey k = (CHR ''.'' \<notin> set k \<and> CHR ''['' \<notin> set k \<and> CHR '']'' \<notin> set k)"

fun wfValue :: "json \<Rightarrow> bool" where
  "wfValue (JObj kids) =
     (kids \<noteq> [] \<and> distinct (map fst kids)
      \<and> list_all (\<lambda>e. plainKey (fst e) \<and> wfValue (snd e)) kids)"
| "wfValue v = True"

definition wfObject :: "jobject \<Rightarrow> bool" where
  "wfObject obj =
     (distinct (map fst obj) \<and> list_all (\<lambda>e. plainKey (fst e) \<and> wfValue (snd e)) obj)"

text \<open>
  The joined form of an array splits back into the array exactly when no element before
  the last, followed by a space, holds the separator, and the last element does not hold
  it.  A value is decodable when \<open>stringToArray\<close> gives it back: a string without the
  separator, or such an array of at least two elements.  The documents of the round trip
  are the well-formed objects whose arrays are top-level entries of that kind and whose
  nested objects hold strings.  \<open>arrayKeys\<close> are the keys of the entries that are arrays.
\<close>

fun separable :: "string list \<Rightarrow> bool" where
  "separable [] = True"
| "separable [x] = (\<not> str_includes x sepKey)"
| "separable (x # y # ys) = (\<not> str_includes (x @ '' '') sepKey \<and> separable (y # ys))"

fun decodable :: "json \<Rightarrow> bool" where
  "decodable (JStr s) = (\<not> str_includes s sepKey)"
| "decodable (JArr xs) = (2 \<le> length xs \<and> separable xs)"
| "decodable (JObj kids) = False"

fun stringLeaves :: "json \<Rightarrow> bool" where
  "stringLeaves (JStr s) = True"
| "stringLeaves (JArr xs) = False"
| "stringLeaves (JObj kids) = list_all (\<lambda>e. stringLeaves (snd e)) kids"

definition codecDoc :: "jobject \<Rightarrow> bool" where
  "codecDoc x =
     (wfObject x
      \<and> list_all (\<lambda>e. case snd e of JArr xs \<Rightarrow> decodable (JArr xs) | v \<Rightarrow> stringLeaves v) x)"

definition arrayKeys :: "jobject \<Rightarrow> string list" where
  "arrayKeys x = map fst (filter (\<lambda>e. case snd e of JArr xs \<Rightarrow> True | _ \<Rightarrow> False) x)"

definition doc_nested :: jobject where
  "doc_nested =
     [(''title'', JStr ''Hello''),
      (''menu'', JObj [(''file'', JStr ''File''), (''edit'', JObj [(''undo'', JStr ''Undo'')])]),
      (''items'', JArr [''1 <sep />2'', ''3'', ''4''])]"

definition doc_flat :: jobject where
  "doc_flat = [(''title'', JStr ''Hello''), (''items'', JArr [''a'', ''b'', ''c''])]"

text \<open>
  The existing translations that \<open>translateFile\<close> finds for a template file, the merged
  content it builds from an answer of the service, and the batch in which every new key
  is its own text.
\<close>

definition existingTranslations :: "world \<Rightarrow> TranslationFile list \<Rightarrow> TranslationFile \<Rightarrow> jobject" where
  "existingTranslations w existingFiles templateFile =
     (case find (\<lambda>f. name f = name templateFile) existingFiles of
        Some f \<Rightarrow> read_ref w (content f)
      | None \<Rightarrow> [])"


definition keysAsValues :: "world \<Rightarrow> TranslationFile list \<Rightarrow> TranslationFile \<Rightarrow> (string \<times> json option) list" where
  "keysAsValues w existingFiles templateFile =
     map (\<lambda>key. (key, Some (JStr key)))
       (filter (\<lambda>key. key \<notin> set (object_keys (existingTranslations w existingFiles templateFile)))
          (object_keys (read_ref w (content templateFile))))"

text \<open>
  The value that a document holds for a key of the loaded content: under the path of the
  key in a document that was unflattened, under the key itself otherwise.  A flat content
  has plain keys when none holds a bracket; a key is separate in it when no other key's
  path is a prefix of its path, or has its path as a prefix.
\<close>

fun get_path :: "jobject \<Rightarrow> string list \<Rightarrow> json option" where
  "get_path obj [] = None"
| "get_path obj [k] = obj_get obj k"
| "get_path obj (k # ks) =
     (case obj_get obj k of Some (JObj kids) \<Rightarrow> get_path kids ks | _ \<Rightarrow> None)"









text \<open>
  A natural content in which every key is its own value: what \<open>fixedContent\<close> produces.
\<close>

definition consistent :: "jobject \<Rightarrow> bool" where
  "consistent obj = (distinct (map fst obj) \<and> list_all (\<lambda>(k, v). v = JStr k) obj)"




definition fileDoc :: "world \<Rightarrow> path \<Rightarrow> jobject" where
  "fileDoc w p = (case readFile w p of Some doc \<Rightarrow> doc | None \<Rightarrow> [])"

text \<open>
  What \<open>loadFile\<close> makes of a document that is read for the first time in a run: its type,
  its normalized content, the object left in the module cache, and the record.
\<close>

definition loadedType :: "FileType \<Rightarrow> jobject \<Rightarrow> FileType" where
  "loadedType fileType doc = (if fileType = Auto then detectFileType doc else fileType)"

definition loadedContent :: "FileType \<Rightarrow> jobject \<Rightarrow> jobject" where
  "loadedContent fileType doc =
     (if loadedType fileType doc = KeyBased then flatten_convert (arrayToString doc) else doc)"


definition loadedFile :: "FileType \<Rightarrow> string \<Rightarrow> string \<Rightarrow> jobject \<Rightarrow> TranslationFile" where
  "loadedFile fileType directory f doc =
     \<lparr>name = f, originalContent = (directory, f), ftype = loadedType fileType doc,
      content = (if loadedType fileType doc = KeyBased then Own (loadedContent fileType doc)
                 else Module (directory, f))\<rparr>"








section \<open>Objects and strings: basic facts\<close>

lemma fst_set_obj_set: "fst ` set (obj_set ob k v) = insert k (fst ` set ob)"
  by (induction ob k v rule: obj_set.induct) auto

lemma fst_set_foldl_obj_set:
  "fst ` set (foldl (\<lambda>acc (k, v). obj_set acc k (f v)) a xs) = fst ` set a \<union> fst ` set xs"
proof (induction xs arbitrary: a)
  case Nil
  then show ?case by simp
next
  case (Cons x xs)
  obtain k v where x: "x = (k, v)" by (cases x)
  show ?case unfolding x by (simp add: Cons.IH fst_set_obj_set)
qed

lemma isString_iff: "isString v = (\<exists>s. v = Some (JStr s))"
  by (auto simp: isString_def split: option.splits json.splits)

lemma str_includes_char: "str_includes s [c] = (c \<in> set s)"
  by (induction s) auto


lemma keys_spread: "set (object_keys (spread a b)) = set (object_keys a) \<union> set (object_keys b)"
  unfolding spread_def object_keys_def
  using fst_set_foldl_obj_set [of "\<lambda>v. v" a b] by simp

lemma detect_natural_iff:
  "(detectFileType json = Natural) =
     (\<exists>k \<in> set (object_keys json). \<exists>s. obj_get json k = Some (JStr s) \<and>
         (CHR ''.'' \<in> set k \<or> CHR '' '' \<in> set k))"
  unfolding detectFileType_def Let_def length_greater_0_conv filter_empty_conv
  by (simp add: isString_iff str_includes_char)

lemma obj_get_obj_set: "obj_get (obj_set ob k v) k' = (if k' = k then Some v else obj_get ob k')"
  by (induction ob k v rule: obj_set.induct) (auto simp: obj_get_def)





lemma keys_stringsToTranslate:
  "map fst (stringsToTranslate ty tc ek) = filter (\<lambda>k. k \<notin> set ek) (object_keys tc)"
  by (simp add: stringsToTranslate_def comp_def)

section \<open>File type detection\<close>

text \<open>
  Claim C9.  \<open>detectFileType\<close> looks only at the top-level entries whose value is a string:
  the answer is \<open>Natural\<close> exactly when the key of one such entry contains a period or a
  space, and \<open>KeyBased\<close> otherwise.  It is a function of the object alone, it always
  answers one of the two, never \<open>Auto\<close>, and an object without string-valued entries is
  \<open>KeyBased\<close>.
\<close>

theorem detectFileType_spec:
  "(detectFileType json = Natural) =
     (\<exists>k \<in> set (object_keys json). \<exists>s. obj_get json k = Some (JStr s) \<and>
         (CHR ''.'' \<in> set k \<or> CHR '' '' \<in> set k))
   \<and> (detectFileType json = Natural \<or> detectFileType json = KeyBased)
   \<and> ((\<forall>k \<in> set (object_keys json). \<forall>s. obj_get json k \<noteq> Some (JStr s))
        \<longrightarrow> detectFileType json = KeyBased)"
proof (intro conjI impI)
  show "(detectFileType json = Natural) =
     (\<exists>k \<in> set (object_keys json). \<exists>s. obj_get json k = Some (JStr s) \<and>
         (CHR ''.'' \<in> set k \<or> CHR '' '' \<in> set k))"
    by (rule detect_natural_iff)
  show "detectFileType json = Natural \<or> detectFileType json = KeyBased"
    by (simp add: detectFileType_def Let_def)
  assume "\<forall>k \<in> set (object_keys json). \<forall>s. obj_get json k \<noteq> Some (JStr s)"
  then have "detectFileType json \<noteq> Natural"
    unfolding detect_natural_iff by blast
  then show "detectFileType json = KeyBased"
    by (simp add: detectFileType_def Let_def split: if_splits)
qed

theorem detectFileType_spec_witness:
  "detectFileType [(''a.b'', JObj []), (''c d'', JArr [''x y''])] = KeyBased"
proof -
  have "\<forall>k \<in> set (object_keys [(''a.b'', JObj []), (''c d'', JArr [''x y''])]).
      \<forall>s. obj_get [(''a.b'', JObj []), (''c d'', JArr [''x y''])] k \<noteq> Some (JStr s)"
    by (simp add: object_keys_def obj_get_def)
  with detectFileType_spec [of "[(''a.b'', JObj []), (''c d'', JArr [''x y''])]"]
  show ?thesis by blast
qed

section \<open>Loading leaves the files and the report alone\<close>

lemma require_frame [simp]: "disk (require p w) = disk w" "events (require p w) = events w"
  by (simp_all add: require_def split: option.splits)

lemma arrayToString_at_frame [simp]:
  "disk (arrayToString_at p w) = disk w" "events (arrayToString_at p w) = events w"
  by (simp_all add: arrayToString_at_def)

lemma loadFile_frame:
  "disk (snd (loadFile d t f w)) = disk w" "events (snd (loadFile d t f w)) = events w"
  by (simp_all add: loadFile_def Let_def)

lemma loadFiles_frame:
  "disk (snd (loadFiles d t fs w)) = disk w \<and> events (snd (loadFiles d t fs w)) = events w"
proof (induction fs arbitrary: w)
  case Nil
  then show ?case by simp
next
  case (Cons f fs)
  obtain tf w1 where a: "loadFile d t f w = (tf, w1)" by (cases "loadFile d t f w")
  obtain files w2 where b: "loadFiles d t fs w1 = (files, w2)" by (cases "loadFiles d t fs w1")
  from a have "disk w1 = disk w" "events w1 = events w"
    using loadFile_frame [of d t f w] by simp_all
  moreover from b have "disk w2 = disk w1" "events w2 = events w1"
    using Cons.IH [of w1] by simp_all
  ultimately show ?case by (simp add: a b)
qed

lemma loadTranslations_frame:
  "disk (snd (loadTranslations d t w)) = disk w" "events (snd (loadTranslations d t w)) = events w"
  by (simp_all add: loadTranslations_def loadFiles_frame)

section \<open>The key diff\<close>

text \<open>
  Claim C1.  For a template content with keys \<open>T\<close> and existing target keys \<open>E\<close>, the
  strings to translate are the keys of \<open>T\<close> that are not in \<open>E\<close>, in the template's order,
  and the unused strings are the keys of \<open>E\<close> that are not in \<open>T\<close>, in the target's order;
  together with \<open>T \<inter> E\<close> they give back \<open>T\<close> and \<open>E\<close>, and the strings to translate are
  disjoint from \<open>T \<inter> E\<close>.  The value sent with a key is the template's value at the key
  for a key-based template (an array joined with one space), and the key itself for a
  natural template.
\<close>

theorem diff_spec:
  "map fst (stringsToTranslate ty tc ek) = filter (\<lambda>k. k \<notin> set ek) (object_keys tc)
   \<and> unusedStrings ek (object_keys tc) = filter (\<lambda>k. k \<notin> set (object_keys tc)) ek
   \<and> set (map fst (stringsToTranslate ty tc ek)) \<union> (set (object_keys tc) \<inter> set ek)
         = set (object_keys tc)
   \<and> set (unusedStrings ek (object_keys tc)) \<union> (set (object_keys tc) \<inter> set ek) = set ek
   \<and> set (map fst (stringsToTranslate ty tc ek)) \<inter> (set (object_keys tc) \<inter> set ek) = {}
   \<and> (\<forall>k v. (k, v) \<in> set (stringsToTranslate ty tc ek) \<longrightarrow>
          (ty = KeyBased \<longrightarrow>
             (\<forall>xs. obj_get tc k = Some (JArr xs) \<longrightarrow> v = Some (JStr (join xs '' '')))
             \<and> ((\<forall>xs. obj_get tc k \<noteq> Some (JArr xs)) \<longrightarrow> v = obj_get tc k))
          \<and> (ty = Natural \<longrightarrow> v = Some (JStr k)))"
proof (intro conjI)
  show "map fst (stringsToTranslate ty tc ek) = filter (\<lambda>k. k \<notin> set ek) (object_keys tc)"
    by (rule keys_stringsToTranslate)
  show "unusedStrings ek (object_keys tc) = filter (\<lambda>k. k \<notin> set (object_keys tc)) ek"
    by (simp add: unusedStrings_def)
  show "set (map fst (stringsToTranslate ty tc ek)) \<union> (set (object_keys tc) \<inter> set ek)
         = set (object_keys tc)"
    unfolding keys_stringsToTranslate by auto
  show "set (unusedStrings ek (object_keys tc)) \<union> (set (object_keys tc) \<inter> set ek) = set ek"
    unfolding unusedStrings_def by auto
  show "set (map fst (stringsToTranslate ty tc ek)) \<inter> (set (object_keys tc) \<inter> set ek) = {}"
    unfolding keys_stringsToTranslate by auto
  show "\<forall>k v. (k, v) \<in> set (stringsToTranslate ty tc ek) \<longrightarrow>
          (ty = KeyBased \<longrightarrow>
             (\<forall>xs. obj_get tc k = Some (JArr xs) \<longrightarrow> v = Some (JStr (join xs '' '')))
             \<and> ((\<forall>xs. obj_get tc k \<noteq> Some (JArr xs)) \<longrightarrow> v = obj_get tc k))
          \<and> (ty = Natural \<longrightarrow> v = Some (JStr k))"
    by (auto simp: stringsToTranslate_def split: option.splits json.splits)
qed

theorem diff_spec_witness:
  "(''items'', Some (JStr ''p q''))
     \<in> set (stringsToTranslate KeyBased
              [(''a'', JStr ''x''), (''items'', JArr [''p'', ''q'']), (''b'', JStr ''y'')]
              [''b'', ''old''])
   \<and> obj_get [(''a'', JStr ''x''), (''items'', JArr [''p'', ''q'']), (''b'', JStr ''y'')] ''items''
       = Some (JArr [''p'', ''q''])
   \<and> map fst (stringsToTranslate KeyBased
                [(''a'', JStr ''x''), (''items'', JArr [''p'', ''q'']), (''b'', JStr ''y'')]
                [''b'', ''old''])
       = [''a'', ''items'']"
proof -
  have m: "(''items'', Some (JStr ''p q''))
     \<in> set (stringsToTranslate KeyBased
              [(''a'', JStr ''x''), (''items'', JArr [''p'', ''q'']), (''b'', JStr ''y'')]
              [''b'', ''old''])"
    by code_simp
  have g: "obj_get [(''a'', JStr ''x''), (''items'', JArr [''p'', ''q'']), (''b'', JStr ''y'')] ''items''
       = Some (JArr [''p'', ''q''])"
    by code_simp
  have f: "filter (\<lambda>k. k \<notin> set [''b'', ''old''])
             (object_keys [(''a'', JStr ''x''), (''items'', JArr [''p'', ''q'']), (''b'', JStr ''y'')])
           = [''a'', ''items'']"
    by code_simp
  from diff_spec [of KeyBased
      "[(''a'', JStr ''x''), (''items'', JArr [''p'', ''q'']), (''b'', JStr ''y'')]" "[''b'', ''old'']"]
  have "map fst (stringsToTranslate KeyBased
                [(''a'', JStr ''x''), (''items'', JArr [''p'', ''q'']), (''b'', JStr ''y'')]
                [''b'', ''old''])
       = [''a'', ''items'']"
    unfolding f by blast
  with m g show ?thesis by blast
qed

section \<open>Inconsistent natural templates\<close>

text \<open>
  Claim C4, as stated, fails: a natural template with the entry
  \<^verbatim>\<open>"Save file": "Guardar archivo"\<close> is inconsistent, and without the fix directive the run
  sends the key \<^verbatim>\<open>Save file\<close> to the service, not the stored value.  A service that gives
  every string back shows it in the file that is written.
\<close>

theorem inconsistent_value_not_submitted:
  "inconsistentFiles (snd (loadTranslations ''en'' Auto world_inconsistent))
       (fst (loadTranslations ''en'' Auto world_inconsistent)) = [''ui.json'']
   \<and> readFile (snd (translate [(''echo'', echoService)] [''icu''] ''en'' False Auto False
                    ''echo'' ''icu'' world_inconsistent)) (''fr'', ''ui.json'')
     = Some [(''Save file'', JStr ''Save file'')]"
  by code_simp

text \<open>
  Claim C4, amended.  Without the fix directive, on a source language that exists and that
  the service supports, with a service and a matcher that exist and a template without
  invalid keys, the run goes on to translate the target languages from the contents as
  they were loaded, whether or not a natural template is inconsistent.  For a natural
  template the batch sent to the service holds every new key with the key itself as the
  text, whatever value the file stores for it: the translation of the file fails when
  the service rejects that batch, and is the same for any two services that answer that
  batch alike.
\<close>

theorem inconsistent_natural_run:
  assumes "sourceLang \<in> set (getAvailableLanguages w)"
    and "map_of serviceMap service = Some ts"
    and "matcher \<in> set matcherMap"
    and "loadTranslations sourceLang fileType w = (templateFiles, w1)"
    and "templateFiles \<noteq> []"
    and "sourceLang \<in> set (availableLanguages ts)"
    and "invalidFiles w1 templateFiles = []"
  shows "translate serviceMap matcherMap sourceLang del fileType False service matcher w
         = translateLanguages del fileType service ts sourceLang templateFiles
             (filter (\<lambda>f. f \<noteq> sourceLang) (getAvailableLanguages w)) w1
       \<and> (\<forall>tf l existing w' ts'. ftype tf = Natural \<longrightarrow>
            (translateStrings ts (keysAsValues w' existing tf) (langCode sourceLang) (langCode l) = None
               \<longrightarrow> translateFile del service ts sourceLang l existing tf w'
                    = (Some ProviderFailure, w'))
            \<and> (translateStrings ts' (keysAsValues w' existing tf) (langCode sourceLang) (langCode l)
                 = translateStrings ts (keysAsValues w' existing tf) (langCode sourceLang) (langCode l)
               \<longrightarrow> translateFile del service ts' sourceLang l existing tf w'
                    = translateFile del service ts sourceLang l existing tf w'))"
proof (intro conjI allI impI)
  show "translate serviceMap matcherMap sourceLang del fileType False service matcher w
         = translateLanguages del fileType service ts sourceLang templateFiles
             (filter (\<lambda>f. f \<noteq> sourceLang) (getAvailableLanguages w)) w1"
    using assms by (simp add: translate_def Let_def checkInconsistencies_def)
next
  fix tf :: TranslationFile and l existing w' and ts' :: TranslationService
  assume nat: "ftype tf = Natural"
  have items: "stringsToTranslate (ftype tf) (read_ref w' (content tf))
                 (object_keys (case find (\<lambda>f. name f = name tf) existing of
                                 Some f \<Rightarrow> read_ref w' (content f) | None \<Rightarrow> []))
               = keysAsValues w' existing tf"
    by (simp add: nat stringsToTranslate_def keysAsValues_def existingTranslations_def)
  {
    assume "translateStrings ts (keysAsValues w' existing tf) (langCode sourceLang) (langCode l) = None"
    then show "translateFile del service ts sourceLang l existing tf w' = (Some ProviderFailure, w')"
      by (simp add: translateFile_def Let_def items)
  }
  {
    assume "translateStrings ts' (keysAsValues w' existing tf) (langCode sourceLang) (langCode l)
             = translateStrings ts (keysAsValues w' existing tf) (langCode sourceLang) (langCode l)"
    then show "translateFile del service ts' sourceLang l existing tf w'
               = translateFile del service ts sourceLang l existing tf w'"
      by (simp add: translateFile_def Let_def items)
  }
qed

theorem inconsistent_natural_run_witness:
  "inconsistentFiles (snd (loadTranslations ''en'' Auto world_inconsistent))
       (fst (loadTranslations ''en'' Auto world_inconsistent)) = [''ui.json'']
   \<and> fst (translate [(''echo'', echoService)] [''icu''] ''en'' False Auto False ''echo'' ''icu''
            world_inconsistent) = None
   \<and> keysAsValues (snd (loadTranslations ''en'' Auto world_inconsistent)) []
        (hd (fst (loadTranslations ''en'' Auto world_inconsistent)))
       = [(''Save file'', Some (JStr ''Save file''))]"
proof -
  have h1: "''en'' \<in> set (getAvailableLanguages world_inconsistent)" by code_simp
  have h2: "map_of [(''echo'', echoService)] ''echo'' = Some echoService" by simp
  have h3: "''icu'' \<in> set [''icu'']" by simp
  have h4: "loadTranslations ''en'' Auto world_inconsistent
             = (fst (loadTranslations ''en'' Auto world_inconsistent),
                snd (loadTranslations ''en'' Auto world_inconsistent))" by simp
  have h5: "fst (loadTranslations ''en'' Auto world_inconsistent) \<noteq> []" by code_simp
  have h6: "''en'' \<in> set (availableLanguages echoService)" by code_simp
  have h7: "invalidFiles (snd (loadTranslations ''en'' Auto world_inconsistent))
              (fst (loadTranslations ''en'' Auto world_inconsistent)) = []" by code_simp
  have run: "fst (translateLanguages False Auto ''echo'' echoService ''en''
                    (fst (loadTranslations ''en'' Auto world_inconsistent))
                    (filter (\<lambda>f. f \<noteq> ''en'') (getAvailableLanguages world_inconsistent))
                    (snd (loadTranslations ''en'' Auto world_inconsistent))) = None"
    by code_simp
  have inc: "inconsistentFiles (snd (loadTranslations ''en'' Auto world_inconsistent))
       (fst (loadTranslations ''en'' Auto world_inconsistent)) = [''ui.json'']" by code_simp
  have kv: "keysAsValues (snd (loadTranslations ''en'' Auto world_inconsistent)) []
        (hd (fst (loadTranslations ''en'' Auto world_inconsistent)))
       = [(''Save file'', Some (JStr ''Save file''))]" by code_simp
  from inconsistent_natural_run [OF h1 h2 h3 h4 h5 h6 h7, of False] run inc kv
  show ?thesis by simp
qed

section \<open>Arrays\<close>

text \<open>
  Claim C5 at a target file that holds an array: the orchestrator re-nests the merged
  content with \<open>flatten_undo\<close> and writes it; \<open>stringToArray\<close> is not called, and the array
  \<^verbatim>\<open>["x", "y"]\<close> of \<^verbatim>\<open>fr/list.json\<close> is written back as the string \<^verbatim>\<open>"x <sep /> y"\<close>.
\<close>

theorem array_written_as_joined_string:
  "readFile world_lists (''fr'', ''list.json'') = Some [(''items'', JArr [''x'', ''y''])]
   \<and> readFile (snd (translate [(''echo'', echoService)] [''icu''] ''en'' False Auto False
                    ''echo'' ''icu'' world_lists)) (''fr'', ''list.json'')
     = Some [(''items'', JStr ''x <sep /> y'')]"
  by code_simp

text \<open>
  Claim C6 at a key-based file that holds an array: \<open>arrayToString\<close> assigns into the
  object it is given, which is the cached module that \<open>originalContent\<close> refers to, so
  after loading \<open>originalContent\<close> shows the joined string and not the parsed array.
\<close>

theorem originalContent_rewritten:
  "readFile world_lists (''en'', ''list.json'') = Some [(''items'', JArr [''a'', ''b''])]
   \<and> map (\<lambda>f. deref (snd (loadTranslations ''en'' Auto world_lists)) (originalContent f))
       (fst (loadTranslations ''en'' Auto world_lists))
     = [[(''items'', JStr ''a <sep /> b'')]]"
  by code_simp

section \<open>Dry run\<close>

text \<open>
  Claim C7 at a dry run with deletion of unused strings requested: the write of every
  target file is skipped, but \<^verbatim>\<open>fr/old.json\<close>, which has no template, is unlinked.
\<close>

theorem dry_run_unlinks_files:
  "readFile world_obsolete (''fr'', ''old.json'') = Some [(''x'', JStr ''y'')]
   \<and> readFile (snd (translate [(''dryRun'', dryRunService)] [''icu''] ''en'' True Auto False
                    ''dryRun'' ''icu'' world_obsolete)) (''fr'', ''old.json'') = None
   \<and> events (snd (translate [(''dryRun'', dryRunService)] [''icu''] ''en'' True Auto False
                    ''dryRun'' ''icu'' world_obsolete))
      = [Unlinked ''fr'' ''old.json'', Translated ''fr'' ''app.json'' 0 None]"
  by code_simp

section \<open>Languages the service does not support\<close>

text \<open>
  Claim C10.  When the service is known and its list of languages does not hold the
  source language, \<open>translate\<close> ends with an error, and neither the files nor the report
  have changed: no target language has been looked at.  When the checks before it pass,
  the error is \<open>SourceLanguageUnsupported\<close>.  A target language that the list does not
  hold is only skipped: the loop records the skip and goes on with the languages left.
\<close>

theorem unsupported_source_language_aborts:
  assumes "map_of serviceMap service = Some ts"
    and "sourceLang \<notin> set (availableLanguages ts)"
  shows "(\<exists>e. fst (translate serviceMap matcherMap sourceLang del fileType fix service matcher w)
               = Some e)
       \<and> disk (snd (translate serviceMap matcherMap sourceLang del fileType fix service matcher w))
           = disk w
       \<and> events (snd (translate serviceMap matcherMap sourceLang del fileType fix service matcher w))
           = events w
       \<and> (sourceLang \<in> set (getAvailableLanguages w) \<and> matcher \<in> set matcherMap
            \<and> fst (loadTranslations sourceLang fileType w) \<noteq> []
          \<longrightarrow> fst (translate serviceMap matcherMap sourceLang del fileType fix service matcher w)
                = Some SourceLanguageUnsupported)
       \<and> (language \<notin> set (availableLanguages ts) \<longrightarrow>
            translateLanguages del fileType service ts sourceLang templateFiles (language # rest) w'
            = translateLanguages del fileType service ts sourceLang templateFiles rest
                (w'\<lparr>events := events w' @ [Skipped language]\<rparr>))"
proof -
  obtain templates w1 where l: "loadTranslations sourceLang fileType w = (templates, w1)"
    by (cases "loadTranslations sourceLang fileType w")
  have fr: "disk w1 = disk w" "events w1 = events w"
    using loadTranslations_frame [of sourceLang fileType w] l by simp_all
  show ?thesis
    using assms fr by (simp add: translate_def Let_def l translateLanguage_def)
qed

theorem unsupported_source_language_aborts_witness:
  "fst (translate [(''echo'', echoService)] [''icu''] ''de'' False Auto False ''echo'' ''icu''
          world_german) = Some SourceLanguageUnsupported
   \<and> disk (snd (translate [(''echo'', echoService)] [''icu''] ''de'' False Auto False ''echo''
                  ''icu'' world_german)) = disk world_german"
proof -
  have h1: "map_of [(''echo'', echoService)] ''echo'' = Some echoService" by simp
  have h2: "''de'' \<notin> set (availableLanguages echoService)" by code_simp
  have h3: "''de'' \<in> set (getAvailableLanguages world_german) \<and> ''icu'' \<in> set [''icu'']
            \<and> fst (loadTranslations ''de'' Auto world_german) \<noteq> []"
    by code_simp
  from unsupported_source_language_aborts [OF h1 h2, of "[''icu'']" False Auto False "''icu''" world_german] h3
  show ?thesis by blast
qed

section \<open>A run over settled files\<close>


lemma readFile_modules [simp]: "readFile (w\<lparr>modules := m\<rparr>) p = readFile w p"
  by (simp add: readFile_def)

lemma readFile_events [simp]: "readFile (w\<lparr>events := e\<rparr>) p = readFile w p"
  by (simp add: readFile_def)

lemma fileDoc_modules [simp]: "fileDoc (w\<lparr>modules := m\<rparr>) p = fileDoc w p"
  by (simp add: fileDoc_def)






lemma read_ref_events [simp]: "read_ref (w\<lparr>events := e\<rparr>) r = read_ref w r"
  by (simp add: read_ref_def deref_def split: objref.splits)

lemma spread_Nil [simp]: "spread a [] = a"
  by (simp add: spread_def)

lemma newKeys_Nil [simp]: "newKeys [] = []"
  by (simp add: newKeys_def)




lemma fileDoc_events [simp]: "fileDoc (w\<lparr>events := e\<rparr>) p = fileDoc w p"
  by (simp add: fileDoc_def)





lemma name_loadedFile [simp]: "name (loadedFile ft d f doc) = f"
  by (simp add: loadedFile_def)

lemma ftype_loadedFile [simp]: "ftype (loadedFile ft d f doc) = loadedType ft doc"
  by (simp add: loadedFile_def)








section \<open>The merge and the emitted file\<close>

lemma path_cases:
  obtains "q = []" | a where "q = [a]" | a b bs where "q = a # b # bs"
  by (cases q; cases "tl q") auto

lemma get_path_Nil [simp]: "get_path [] p = None"
  by (cases p rule: path_cases) (auto simp: obj_get_def)




















section \<open>The array codec and the flatten codec\<close>

lemma str_includes_sublist: "str_includes s sub = sublist sub s"
  by (induction s) (auto simp: sublist_Cons_right)

lemma splitAux_none:
  "\<not> str_includes s sep \<Longrightarrow> splitAux sep acc s = [rev acc @ s]"
  by (induction s arbitrary: acc) auto

lemma split_none: "\<not> str_includes s sep \<Longrightarrow> split s sep = [s]"
  by (cases "sep = []") (auto simp: split_def splitAux_none str_includes_sublist)

lemma obj_get_append_new:
  "k \<notin> fst ` set pre \<Longrightarrow> obj_get (pre @ (k, v) # rest) k = Some v"
  by (induction pre) (auto simp: obj_get_def)

lemma obj_set_append_old:
  "k \<notin> fst ` set pre \<Longrightarrow> obj_set (pre @ (k, v) # rest) k x = pre @ (k, x) # rest"
  by (induction pre) auto

lemma obj_set_append_new:
  "k \<notin> fst ` set ob \<Longrightarrow> obj_set ob k x = ob @ [(k, x)]"
  by (induction ob) auto

lemma arrayToString_fold:
  "distinct (map fst (pre @ todo)) \<Longrightarrow>
     foldl (\<lambda>ob key. case obj_get ob key of
                         Some (JArr xs) \<Rightarrow> obj_set ob key (JStr (join xs sepKey))
                       | _ \<Rightarrow> ob)
       (pre @ todo) (map fst todo)
     = pre @ map (\<lambda>(k, v). (k, encoded v)) todo"
proof (induction todo arbitrary: pre)
  case Nil
  then show ?case by simp
next
  case (Cons e todo)
  obtain k v where e: "e = (k, v)" by (cases e)
  from Cons.prems have new: "k \<notin> fst ` set pre" by (auto simp: e)
  have step: "(case obj_get (pre @ (k, v) # todo) k of
                 Some (JArr xs) \<Rightarrow> obj_set (pre @ (k, v) # todo) k (JStr (join xs sepKey))
               | _ \<Rightarrow> pre @ (k, v) # todo)
              = (pre @ [(k, encoded v)]) @ todo"
    by (cases v) (simp_all add: obj_get_append_new [OF new] obj_set_append_old [OF new] encoded_def)
  from Cons.prems have "distinct (map fst ((pre @ [(k, encoded v)]) @ todo))" by (auto simp: e)
  from Cons.IH [OF this] show ?case unfolding e by (simp add: step)
qed

lemma arrayToString_map:
  "distinct (object_keys obj) \<Longrightarrow> arrayToString obj = map (\<lambda>(k, v). (k, encoded v)) obj"
  unfolding arrayToString_def object_keys_def
  using arrayToString_fold [of "[]" obj] by simp

lemma keys_encoded: "map fst (map (\<lambda>(k, v). (k, encoded v)) obj) = map fst obj"
  by (induction obj) auto

lemma flatten_entries_leaves:
  "flatten_entries path obj acc
   = foldl (\<lambda>r (p, v). obj_set r (join p ''.'') v) acc
       (map (\<lambda>(p, v). (path @ p, v)) (leaves obj))"
  by (induction path obj acc rule: flatten_entries.induct)
     (auto split: json.splits simp: comp_def case_prod_beta)

lemma wfObject_Cons:
  "wfObject ((k, v) # rest)
   = (k \<notin> fst ` set rest \<and> plainKey k \<and> wfValue v \<and> wfObject rest)"
  by (auto simp: wfObject_def)

lemma wfValue_JObj [simp]: "wfValue (JObj kids) = (kids \<noteq> [] \<and> wfObject kids)"
  by (simp add: wfObject_def)

declare wfValue.simps(1) [simp del]

lemma leaves_heads:
  "(p, v) \<in> set (leaves obj) \<Longrightarrow> \<exists>k q. p = k # q \<and> k \<in> fst ` set obj"
  by (induction obj rule: leaves.induct) (force split: json.splits)+

lemma leaves_nonempty: "wfObject obj \<Longrightarrow> obj \<noteq> [] \<Longrightarrow> leaves obj \<noteq> []"
proof (induction obj rule: leaves.induct)
  case 1
  then show ?case by simp
next
  case (2 k v rest)
  show ?case
  proof (cases v)
    case (JObj kids)
    with 2 show ?thesis by (simp add: wfObject_Cons)
  qed simp_all
qed

lemma leaves_plain:
  "wfObject obj \<Longrightarrow> (p, v) \<in> set (leaves obj) \<Longrightarrow> list_all plainKey p"
proof (induction obj arbitrary: p rule: leaves.induct)
  case 1
  then show ?case by simp
next
  case (2 k x rest)
  then show ?case
    by (cases x) (auto simp: wfObject_Cons)
qed

lemma leaves_distinct: "wfObject obj \<Longrightarrow> distinct (map fst (leaves obj))"
proof (induction obj rule: leaves.induct)
  case 1
  then show ?case by simp
next
  case (2 k x rest)
  from "2.prems" have k: "k \<notin> fst ` set rest" and r: "wfObject rest" and x: "wfValue x"
    by (simp_all add: wfObject_Cons)
  have rest: "distinct (map fst (leaves rest))" using 2 r by simp
  have sep: "p \<noteq> k # q" if "(p, v) \<in> set (leaves rest)" for p v q
    using leaves_heads [OF that] k by auto
  show ?case
  proof (cases x)
    case (JObj kids)
    with x 2 have "distinct (map fst (leaves kids))" by (simp add:)
    then have "distinct (map fst (map (\<lambda>(p, x). (k # p, x)) (leaves kids)))"
      by (simp add: comp_def case_prod_beta distinct_map inj_on_def)
    with rest sep show ?thesis by (fastforce simp: JObj)
  next
    case (JStr s)
    with rest sep show ?thesis by force
  next
    case (JArr xs)
    with rest sep show ?thesis by force
  qed
qed

lemma obj_set_twice: "obj_set (obj_set ob k a) k b = obj_set ob k b"
  by (induction ob k a rule: obj_set.induct) auto

lemma set_path_Cons:
  "p \<noteq> [] \<Longrightarrow> set_path obj (k # p) v = obj_set obj k (JObj (set_path (kidsAt obj k) p v))"
  by (cases p) (simp_all add: kidsAt_def)

lemma kidsAt_obj_set: "kidsAt (obj_set obj k (JObj kids)) k = kids"
  by (simp add: kidsAt_def obj_get_obj_set)

lemma kidsAt_new: "k \<notin> fst ` set obj \<Longrightarrow> kidsAt obj k = []"
  by (simp add: kidsAt_def obj_get_def map_of_eq_None_iff [THEN iffD2])

lemma build_under:
  "ls \<noteq> [] \<Longrightarrow> \<forall>e \<in> set ls. fst e \<noteq> [] \<Longrightarrow>
     foldl (\<lambda>acc (p, v). set_path acc p v) acc (map (\<lambda>(p, x). (k # p, x)) ls)
     = obj_set acc k (JObj (foldl (\<lambda>acc (p, v). set_path acc p v) (kidsAt acc k) ls))"
proof (induction ls arbitrary: acc)
  case Nil
  then show ?case by simp
next
  case (Cons e ls)
  obtain p v where e: "e = (p, v)" by (cases e)
  from Cons.prems have p: "p \<noteq> []" by (simp add: e)
  let ?acc1 = "obj_set acc k (JObj (set_path (kidsAt acc k) p v))"
  show ?case
  proof (cases "ls = []")
    case True
    then show ?thesis by (simp add: e set_path_Cons [OF p])
  next
    case False
    from Cons.prems have "\<forall>e \<in> set ls. fst e \<noteq> []" by simp
    from Cons.IH [OF False this, of ?acc1]
    show ?thesis by (simp add: e set_path_Cons [OF p] kidsAt_obj_set obj_set_twice)
  qed
qed

lemma build_leaves:
  "wfObject obj \<Longrightarrow> fst ` set acc \<inter> fst ` set obj = {} \<Longrightarrow>
     foldl (\<lambda>acc (p, v). set_path acc p v) acc (leaves obj) = acc @ obj"
proof (induction obj arbitrary: acc rule: leaves.induct)
  case 1
  then show ?case by simp
next
  case (2 k x rest)
  from "2.prems" have k: "k \<notin> fst ` set rest" and r: "wfObject rest" and x: "wfValue x"
    and new: "k \<notin> fst ` set acc"
    by (auto simp: wfObject_Cons)
  have first: "foldl (\<lambda>acc (p, v). set_path acc p v) acc
                 (case x of JObj kids \<Rightarrow> map (\<lambda>(p, y). (k # p, y)) (leaves kids)
                          | _ \<Rightarrow> [([k], x)])
               = acc @ [(k, x)]"
  proof (cases x)
    case (JObj kids)
    with x have kn: "kids \<noteq> []" and kw: "wfObject kids" by simp_all
    have ne: "leaves kids \<noteq> []" using kw kn by (rule leaves_nonempty)
    have pe: "\<forall>e \<in> set (leaves kids). fst e \<noteq> []"
      using leaves_heads [of _ _ kids] by force
    have "foldl (\<lambda>acc (p, v). set_path acc p v) [] (leaves kids) = [] @ kids"
      using "2.IH"(1) [OF JObj kw, of "[]"] by simp
    then show ?thesis
      by (simp add: JObj build_under [OF ne pe] kidsAt_new [OF new] obj_set_append_new [OF new])
  next
    case (JStr s)
    then show ?thesis by (simp add: obj_set_append_new [OF new])
  next
    case (JArr xs)
    then show ?thesis by (simp add: obj_set_append_new [OF new])
  qed
  have "fst ` set (acc @ [(k, x)]) \<inter> fst ` set rest = {}"
    using "2.prems"(2) k by auto
  from "2.IH"(2) [OF r this] show ?case by (simp add: first)
qed

lemma splitAux_dot:
  "CHR ''.'' \<notin> set x \<Longrightarrow>
     splitAux ''.'' acc (x @ CHR ''.'' # rest) = (rev acc @ x) # splitAux ''.'' [] rest"
  by (induction x arbitrary: acc) auto

lemma splitAux_dot_last: "CHR ''.'' \<notin> set x \<Longrightarrow> splitAux ''.'' acc x = [rev acc @ x]"
  by (induction x arbitrary: acc) auto

lemma split_join_dot:
  "p \<noteq> [] \<Longrightarrow> list_all plainKey p \<Longrightarrow> split (join p ''.'') ''.'' = p"
proof (induction p "''.''" rule: join.induct)
  case 1
  then show ?case by simp
next
  case (2 x)
  then show ?case by (simp add: split_def splitAux_dot_last plainKey_def)
next
  case (3 x y ys)
  then show ?case by (simp add: split_def splitAux_dot plainKey_def)
qed

lemma foldl_obj_set_append:
  "distinct (map fst (acc @ ls)) \<Longrightarrow>
     foldl (\<lambda>r (k, v). obj_set r k v) acc ls = acc @ ls"
proof (induction ls arbitrary: acc)
  case Nil
  then show ?case by simp
next
  case (Cons e ls)
  obtain k v where e: "e = (k, v)" by (cases e)
  from Cons.prems have new: "k \<notin> fst ` set acc" by (auto simp: e)
  from Cons.prems have "distinct (map fst ((acc @ [(k, v)]) @ ls))" by (simp add: e)
  from Cons.IH [OF this] show ?case by (simp add: e obj_set_append_new [OF new])
qed

lemma join_dot_inj:
  assumes "p \<noteq> []" "list_all plainKey p" "q \<noteq> []" "list_all plainKey q"
    and "join p ''.'' = join q ''.''"
  shows "p = q"
proof -
  have "p = split (join p ''.'') ''.''" using split_join_dot [OF assms(1,2)] by (rule sym)
  also have "\<dots> = split (join q ''.'') ''.''" by (simp only: assms(5))
  also have "\<dots> = q" using assms(3,4) by (rule split_join_dot)
  finally show ?thesis .
qed

lemma flatOf_distinct: "wfObject obj \<Longrightarrow> distinct (map fst (flatOf obj))"
proof -
  assume wf: "wfObject obj"
  have "inj_on (\<lambda>p. join p ''.'') (set (map fst (leaves obj)))"
  proof (rule inj_onI)
    fix p q
    assume p: "p \<in> set (map fst (leaves obj))" and q: "q \<in> set (map fst (leaves obj))"
      and eq: "join p ''.'' = join q ''.''"
    from p obtain v where pv: "(p, v) \<in> set (leaves obj)" by auto
    from q obtain u where qu: "(q, u) \<in> set (leaves obj)" by auto
    from leaves_heads [OF pv] have pn: "p \<noteq> []" by auto
    from leaves_heads [OF qu] have qn: "q \<noteq> []" by auto
    from pn leaves_plain [OF wf pv] qn leaves_plain [OF wf qu] eq
    show "p = q" by (rule join_dot_inj)
  qed
  with leaves_distinct [OF wf]
  have "distinct (map (\<lambda>p. join p ''.'') (map fst (leaves obj)))"
    by (simp only: distinct_map simp_thms)
  moreover have "map fst (flatOf obj) = map (\<lambda>p. join p ''.'') (map fst (leaves obj))"
    by (simp add: flatOf_def comp_def case_prod_unfold)
  ultimately show ?thesis by simp
qed

lemma flatten_convert_flatOf: "wfObject obj \<Longrightarrow> flatten_convert obj = flatOf obj"
proof -
  assume wf: "wfObject obj"
  have "flatten_convert obj
        = foldl (\<lambda>r (p, v). obj_set r (join p ''.'') v) [] (leaves obj)"
    by (simp add: flatten_convert_def flatten_entries_leaves case_prod_unfold)
  also have "\<dots> = foldl (\<lambda>r (k, v). obj_set r k v) [] (flatOf obj)"
    by (simp add: flatOf_def foldl_map case_prod_unfold)
  also have "\<dots> = flatOf obj"
    using foldl_obj_set_append [of "[]" "flatOf obj"] flatOf_distinct [OF wf] by simp
  finally show ?thesis .
qed

lemma flatten_undo_flatOf: "wfObject obj \<Longrightarrow> flatten_undo (flatOf obj) = obj"
proof -
  assume wf: "wfObject obj"
  have "flatten_undo (flatOf obj)
        = foldl (\<lambda>acc (p, v). set_path acc (split (join p ''.'') ''.'') v) [] (leaves obj)"
    by (simp add: flatten_undo_def flatOf_def foldl_map case_prod_unfold)
  also have "\<dots> = foldl (\<lambda>acc (p, v). set_path acc p v) [] (leaves obj)"
  proof (rule foldl_cong)
    fix acc e assume em: "e \<in> set (leaves obj)"
    obtain p v where e: "e = (p, v)" by (cases e)
    with em have m: "(p, v) \<in> set (leaves obj)" by simp
    from leaves_heads [OF m] have "p \<noteq> []" by auto
    from split_join_dot [OF this leaves_plain [OF wf m]]
    show "(case e of (p, v) \<Rightarrow> set_path acc (split (join p ''.'') ''.'') v)
          = (case e of (p, v) \<Rightarrow> set_path acc p v)"
      by (simp add: e)
  qed simp_all
  also have "\<dots> = obj" using build_leaves [OF wf, of "[]"] by simp
  finally show ?thesis .
qed

lemma flatten_round_trip: "wfObject obj \<Longrightarrow> flatten_undo (flatten_convert obj) = obj"
  by (simp add: flatten_convert_flatOf flatten_undo_flatOf)

lemma overlap_end:
  assumes "prefix sepKey (y @ sepKey @ rest)" and "y \<noteq> []"
  shows "str_includes (y @ '' '') sepKey"
proof -
  from assms(1) have "prefix sepKey y \<or> (\<exists>us. sepKey = y @ us \<and> prefix us (sepKey @ rest))"
    by (simp add: prefix_append)
  then show ?thesis
  proof
    assume "prefix sepKey y"
    then obtain zs where "y = sepKey @ zs" by (auto simp: prefix_def)
    then have "y @ '' '' = [] @ sepKey @ (zs @ '' '')" by simp
    then have "sublist sepKey (y @ '' '')" unfolding sublist_def by blast
    then show ?thesis by (simp add: str_includes_sublist)
  next
    assume "\<exists>us. sepKey = y @ us \<and> prefix us (sepKey @ rest)"
    then obtain us where a: "sepKey = y @ us" and b: "prefix us (sepKey @ rest)" by blast
    from a b assms(2) have "y = '' <sep />'' \<or> y = sepKey"
      unfolding sepKey_def by (auto simp: Cons_eq_append_conv prefix_Cons)
    then show ?thesis by (auto simp: sepKey_def)
  qed
qed

lemma splitAux_between:
  "\<not> str_includes (x @ '' '') sepKey \<Longrightarrow>
     splitAux sepKey acc (x @ sepKey @ rest) = (rev acc @ x) # splitAux sepKey [] rest"
proof (induction x arbitrary: acc)
  case Nil
  then show ?case by (simp add: sepKey_def)
next
  case (Cons c cs)
  have no: "\<not> prefix sepKey (c # cs @ sepKey @ rest)"
  proof
    assume "prefix sepKey (c # cs @ sepKey @ rest)"
    then have "prefix sepKey ((c # cs) @ sepKey @ rest)" by simp
    then have "str_includes ((c # cs) @ '' '') sepKey" by (rule overlap_end) simp
    with Cons.prems show False by simp
  qed
  from Cons.prems have "\<not> str_includes (cs @ '' '') sepKey" by simp
  then have "splitAux sepKey (c # acc) (cs @ sepKey @ rest)
               = (rev (c # acc) @ cs) # splitAux sepKey [] rest"
    by (rule Cons.IH)
  with no show ?case by simp
qed

lemma split_join_separable:
  "xs \<noteq> [] \<Longrightarrow> separable xs \<Longrightarrow> split (join xs sepKey) sepKey = xs"
proof (induction xs sepKey rule: join.induct)
  case 1
  then show ?case by simp
next
  case (2 x)
  then show ?case by (simp add: split_none)
next
  case (3 x y ys)
  then have "splitAux sepKey [] (join (y # ys) sepKey) = y # ys"
    by (simp add: split_def sepKey_def)
  with 3 show ?case by (simp add: split_def splitAux_between) (simp add: sepKey_def)
qed

lemma sublist_butlast: "sep \<noteq> [] \<Longrightarrow> \<not> sublist sep (butlast sep)"
proof
  assume "sep \<noteq> []" and "sublist sep (butlast sep)"
  then obtain ps ss where "butlast sep = ps @ sep @ ss" by (auto simp: sublist_def)
  then have "length (butlast sep) = length (ps @ sep @ ss)" by (rule arg_cong)
  with \<open>sep \<noteq> []\<close> show False by (cases sep rule: rev_cases) auto
qed

lemma splitAux_first:
  "sep \<noteq> [] \<Longrightarrow> splitAux sep acc s = (rev acc @ p) # t \<Longrightarrow> prefix (p @ sep) s \<Longrightarrow>
     \<not> str_includes (p @ butlast sep) sep"
proof (induction s arbitrary: acc p)
  case Nil
  then show ?case by simp
next
  case (Cons c cs)
  show ?case
  proof (cases "prefix sep (c # cs)")
    case True
    with Cons.prems have "p = []" by simp
    with Cons.prems(1) show ?thesis by (simp add: str_includes_sublist sublist_butlast)
  next
    case False
    with Cons.prems have "p \<noteq> []" by auto
    then obtain p' where p: "p = c # p'" and pre: "prefix (p' @ sep) cs"
      using Cons.prems(3) by (cases p) auto
    from False Cons.prems(2) have "splitAux sep (c # acc) cs = (rev (c # acc) @ p') # t"
      by (simp add: p)
    from Cons.IH [OF Cons.prems(1) this pre] have ih: "\<not> str_includes (p' @ butlast sep) sep" .
    have "\<not> prefix sep (c # p' @ butlast sep)"
    proof
      assume "prefix sep (c # p' @ butlast sep)"
      moreover have "prefix (c # p' @ butlast sep) (c # p' @ sep)"
        by (simp add: prefixeq_butlast)
      moreover from pre have "prefix (c # p' @ sep) (c # cs)" by simp
      ultimately have "prefix sep (c # cs)" by (meson prefix_order.trans)
      with False show False by simp
    qed
    with ih show ?thesis by (simp add: p)
  qed
qed

lemma splitAux_includes:
  "sep \<noteq> [] \<Longrightarrow> str_includes s sep \<Longrightarrow> 2 \<le> length (splitAux sep acc s)"
proof (induction s arbitrary: acc)
  case Nil
  then show ?case by simp
next
  case (Cons c cs)
  have "1 \<le> length (splitAux sep a r)" for a r
    by (induction sep a r rule: splitAux.induct) auto
  note one = this
  show ?case
  proof (cases "prefix sep (c # cs)")
    case True
    with Cons.prems one [of "[]" "drop (length sep - 1) cs"] show ?thesis by simp
  next
    case False
    with Cons show ?thesis by simp
  qed
qed

lemma separable_exact:
  "xs \<noteq> [] \<Longrightarrow> split (join xs sepKey) sepKey = xs \<Longrightarrow> separable xs"
proof (induction xs)
  case Nil
  then show ?case by simp
next
  case (Cons x xs)
  have ne: "sepKey \<noteq> []" by (simp add: sepKey_def)
  show ?case
  proof (cases xs)
    case Nil
    have "\<not> str_includes x sepKey"
    proof
      assume "str_includes x sepKey"
      from splitAux_includes [OF ne this, of "[]"] Cons.prems(2) show False
        by (simp add: Nil split_def ne)
    qed
    then show ?thesis by (simp add: Nil)
  next
    case (Cons y ys)
    let ?rest = "join (y # ys) sepKey"
    from Cons.prems(2) have sp: "splitAux sepKey [] (x @ sepKey @ ?rest) = (rev [] @ x) # y # ys"
      by (simp add: Cons split_def ne)
    have "prefix (x @ sepKey) (x @ sepKey @ ?rest)" by simp
    from splitAux_first [OF ne sp this] have no: "\<not> str_includes (x @ butlast sepKey) sepKey" .
    have "sublist (x @ '' '') (x @ butlast sepKey)"
      unfolding sublist_def by (rule exI [of _ "[]"], rule exI [of _ "''<sep />''"]) (simp add: sepKey_def)
    with no have x: "\<not> str_includes (x @ '' '') sepKey"
      unfolding str_includes_sublist by (meson sublist_order.order_trans)
    from splitAux_between [OF x, of "[]" ?rest] sp have "splitAux sepKey [] ?rest = y # ys"
      by simp
    then have "split (join xs sepKey) sepKey = xs" by (simp add: Cons split_def ne)
    with Cons.IH have "separable xs" by (simp add: Cons)
    with x show ?thesis by (simp add: Cons)
  qed
qed

lemma stringToArray_step_array:
  assumes new: "k \<notin> fst ` set pre" and len: "2 \<le> length xs" and sep: "separable xs"
  shows "stringToArray_step (Inr (pre @ (k, JStr (join xs sepKey)) # rest)) k
           = Inr (pre @ (k, JArr xs) # rest)"
proof -
  from len have "xs \<noteq> []" by auto
  from split_join_separable [OF this sep] have sp: "split (join xs sepKey) sepKey = xs" .
  from len obtain a b cs where "xs = a # b # cs"
    by (cases xs; cases "tl xs") auto
  then have many: "(case xs of [x] \<Rightarrow> JStr x | _ \<Rightarrow> JArr xs) = JArr xs" by simp
  show ?thesis
    by (simp add: stringToArray_step_def obj_get_append_new [OF new]
          obj_set_append_old [OF new] sp many)
qed

lemma stringToArray_step_string:
  assumes new: "k \<notin> fst ` set pre" and s: "\<not> str_includes s sepKey"
  shows "stringToArray_step (Inr (pre @ (k, JStr s) # rest)) k = Inr (pre @ (k, JStr s) # rest)"
proof -
  from s have "split s sepKey = [s]" by (rule split_none)
  then show ?thesis
    by (simp add: stringToArray_step_def obj_get_append_new [OF new] obj_set_append_old [OF new])
qed

lemma decode_all:
  "distinct (map fst (pre @ todo)) \<Longrightarrow> list_all (\<lambda>e. decodable (snd e)) todo \<Longrightarrow>
     foldl stringToArray_step (Inr (pre @ map (\<lambda>(k, v). (k, encoded v)) todo)) (map fst todo)
     = Inr (pre @ todo)"
proof (induction todo arbitrary: pre)
  case Nil
  then show ?case by simp
next
  case (Cons e todo)
  obtain k v where e: "e = (k, v)" by (cases e)
  from Cons.prems have new: "k \<notin> fst ` set pre" by (auto simp: e)
  from Cons.prems have leaf: "decodable v" by (simp add: e)
  have step: "stringToArray_step
                (Inr (pre @ (k, encoded v) # map (\<lambda>(k, v). (k, encoded v)) todo)) k
              = Inr ((pre @ [(k, v)]) @ map (\<lambda>(k, v). (k, encoded v)) todo)"
  proof (cases v)
    case (JStr s)
    with leaf show ?thesis by (simp add: encoded_def stringToArray_step_string [OF new])
  next
    case (JArr xs)
    with leaf show ?thesis by (simp add: encoded_def stringToArray_step_array [OF new])
  next
    case (JObj kids)
    with leaf show ?thesis by simp
  qed
  from Cons.prems have d: "distinct (map fst ((pre @ [(k, v)]) @ todo))"
    and l: "list_all (\<lambda>e. decodable (snd e)) todo" by (auto simp: e)
  from Cons.IH [OF d l] show ?case unfolding e by (simp add: step)
qed

lemma decode_arrays:
  "distinct (map fst (pre @ todo)) \<Longrightarrow>
   list_all (\<lambda>e. case snd e of JArr xs \<Rightarrow> decodable (JArr xs) | v \<Rightarrow> True) todo \<Longrightarrow>
     foldl stringToArray_step (Inr (pre @ map (\<lambda>(k, v). (k, encoded v)) todo)) (arrayKeys todo)
     = Inr (pre @ todo)"
proof (induction todo arbitrary: pre)
  case Nil
  then show ?case by (simp add: arrayKeys_def)
next
  case (Cons e todo)
  obtain k v where e: "e = (k, v)" by (cases e)
  from Cons.prems have new: "k \<notin> fst ` set pre" by (auto simp: e)
  from Cons.prems have d: "distinct (map fst ((pre @ [(k, v)]) @ todo))"
    and l: "list_all (\<lambda>e. case snd e of JArr xs \<Rightarrow> decodable (JArr xs) | v \<Rightarrow> True) todo"
    by (auto simp: e)
  note ih = Cons.IH [OF d l]
  show ?case
  proof (cases v)
    case (JStr s)
    with ih show ?thesis by (simp add: e encoded_def arrayKeys_def)
  next
    case (JArr xs)
    with Cons.prems have "2 \<le> length xs" "separable xs" by (simp_all add: e)
    from stringToArray_step_array [OF new this] ih show ?thesis
      by (simp add: e JArr encoded_def arrayKeys_def)
  next
    case (JObj kids)
    with ih show ?thesis by (simp add: e encoded_def arrayKeys_def)
  qed
qed

lemma wfValue_encoded: "wfValue v \<Longrightarrow> wfValue (encoded v)"
  by (cases v) (simp_all add: encoded_def)

lemma wfObject_encoded: "wfObject x \<Longrightarrow> wfObject (map (\<lambda>(k, v). (k, encoded v)) x)"
  unfolding wfObject_def keys_encoded
  by (auto simp: list_all_iff wfValue_encoded)

lemma codec_arrayToString:
  "wfObject x \<Longrightarrow> arrayToString x = map (\<lambda>(k, v). (k, encoded v)) x"
  by (rule arrayToString_map) (simp add: wfObject_def object_keys_def)

lemma codec_unflatten:
  "wfObject x \<Longrightarrow> flatten_undo (flatten_convert (arrayToString x)) = arrayToString x"
  by (simp add: codec_arrayToString flatten_round_trip wfObject_encoded)

lemma leaves_top:
  "(k, v) \<in> set obj \<Longrightarrow> (\<And>kids. v \<noteq> JObj kids) \<Longrightarrow> ([k], v) \<in> set (leaves obj)"
proof (induction obj)
  case Nil
  then show ?case by simp
next
  case (Cons e obj)
  obtain k' v' where e: "e = (k', v')" by (cases e)
  show ?case
  proof (cases "(k, v) = e")
    case True
    with Cons.prems(2) show ?thesis by (cases v) (auto simp: e)
  next
    case False
    with Cons have "([k], v) \<in> set (leaves obj)" by auto
    then show ?thesis by (simp add: e)
  qed
qed

lemma codec_array_entry:
  assumes wf: "wfObject x" and m: "(k, JArr xs) \<in> set x"
  shows "obj_get (flatten_convert (arrayToString x)) k = Some (JStr (join xs sepKey))"
proof -
  let ?a = "map (\<lambda>(k, v). (k, encoded v)) x"
  have wa: "wfObject ?a" using wf by (rule wfObject_encoded)
  from m have "(k, encoded (JArr xs)) \<in> set ?a" by force
  then have "(k, JStr (join xs sepKey)) \<in> set ?a" by (simp add: encoded_def)
  then have "([k], JStr (join xs sepKey)) \<in> set (leaves ?a)"
    by (rule leaves_top) simp
  then have "(join [k] ''.'', JStr (join xs sepKey)) \<in> set (flatOf ?a)"
    unfolding flatOf_def by force
  then have "(k, JStr (join xs sepKey)) \<in> set (flatOf ?a)" by simp
  moreover have "distinct (map fst (flatOf ?a))" using wa by (rule flatOf_distinct)
  ultimately have "map_of (flatOf ?a) k = Some (JStr (join xs sepKey))"
    by (rule map_of_is_SomeI [rotated])
  then show ?thesis
    by (simp add: codec_arrayToString [OF wf] flatten_convert_flatOf [OF wa] obj_get_def)
qed

text \<open>
  Claim C2, as stated, fails: an array with one element is joined to that element, and
  \<open>stringToArray\<close> gives a string back for a string without the separator, not an array
  of length one.
\<close>

theorem single_element_array_decodes_to_string:
  "stringToArray (flatten_undo (flatten_convert (arrayToString [(''items'', JArr [''a''])])))
     = Inr [(''items'', JStr ''a'')]"
  by code_simp

text \<open>
  Other inputs that do not come back: the empty array, an array whose joined form holds
  the separator where no two elements meet, and a top-level key with a period, which is
  unflattened into a nested object.
\<close>

lemma empty_array_decodes_to_string:
  "stringToArray (arrayToString [(''items'', JArr [])]) = Inr [(''items'', JStr [])]"
  by code_simp

lemma separator_overlap_not_restored:
  "stringToArray (arrayToString [(''items'', JArr [''x <sep />'', ''y''])])
     = Inr [(''items'', JArr [''x'', ''<sep /> y''])]"
  by code_simp

lemma dotted_key_not_restored:
  "flatten_undo (flatten_convert [(''a.b'', JStr ''x'')]) = [(''a'', JObj [(''b'', JStr ''x'')])]"
  by code_simp

text \<open>
  Claim C2, amended.  Take a nested object in which, at every level, the keys are distinct
  and hold no period and no bracket and no nested object is empty, whose arrays are
  top-level entries with at least two elements that split back from their joined form,
  and whose nested objects hold strings.  Unflattening the flattened form of the encoded
  object gives the encoded object back, and the decode step at the keys of the arrays
  then gives the object itself; when the object has no nested object and no string that
  holds the separator, \<open>stringToArray\<close> does so in one call.  Every array is encoded as one
  joined string, which splits back into the array.
\<close>

theorem nested_codec_round_trip:
  assumes "codecDoc x"
  shows "flatten_undo (flatten_convert (arrayToString x)) = arrayToString x
       \<and> foldl stringToArray_step (Inr (flatten_undo (flatten_convert (arrayToString x))))
           (arrayKeys x) = Inr x
       \<and> (list_all (\<lambda>e. decodable (snd e)) x \<longrightarrow>
            stringToArray (flatten_undo (flatten_convert (arrayToString x))) = Inr x)
       \<and> (\<forall>k xs. (k, JArr xs) \<in> set x \<longrightarrow>
             obj_get (flatten_convert (arrayToString x)) k = Some (JStr (join xs sepKey))
             \<and> split (join xs sepKey) sepKey = xs)"
proof -
  from assms have wf: "wfObject x"
    and leaf: "list_all (\<lambda>e. case snd e of JArr xs \<Rightarrow> decodable (JArr xs) | v \<Rightarrow> stringLeaves v) x"
    by (simp_all add: codecDoc_def)
  from wf have d: "distinct (map fst ([] @ x))" by (simp add: wfObject_def)
  have u: "flatten_undo (flatten_convert (arrayToString x)) = arrayToString x"
    using wf by (rule codec_unflatten)
  have a: "arrayToString x = map (\<lambda>(k, v). (k, encoded v)) x"
    using wf by (rule codec_arrayToString)
  from leaf have "list_all (\<lambda>e. case snd e of JArr xs \<Rightarrow> decodable (JArr xs) | v \<Rightarrow> True) x"
    by (auto simp: list_all_iff split: json.splits)
  from decode_arrays [OF d this]
  have "foldl stringToArray_step (Inr (arrayToString x)) (arrayKeys x) = Inr x"
    by (simp add: a)
  then have b: "foldl stringToArray_step (Inr (flatten_undo (flatten_convert (arrayToString x))))
             (arrayKeys x) = Inr x"
    by (simp only: u)
  have c: "stringToArray (flatten_undo (flatten_convert (arrayToString x))) = Inr x"
    if "list_all (\<lambda>e. decodable (snd e)) x"
  proof -
    from decode_all [OF d that] have "stringToArray (arrayToString x) = Inr x"
      unfolding stringToArray_def object_keys_def a keys_encoded by simp
    then show ?thesis by (simp only: u)
  qed
  have e: "obj_get (flatten_convert (arrayToString x)) k = Some (JStr (join xs sepKey))
           \<and> split (join xs sepKey) sepKey = xs"
    if m: "(k, JArr xs) \<in> set x" for k xs
  proof
    show "obj_get (flatten_convert (arrayToString x)) k = Some (JStr (join xs sepKey))"
      using wf m by (rule codec_array_entry)
    from leaf m have "decodable (JArr xs)" by (auto simp: list_all_iff)
    then have "xs \<noteq> []" and "separable xs" by auto
    then show "split (join xs sepKey) sepKey = xs" by (rule split_join_separable)
  qed
  from u b c e show ?thesis by blast
qed

theorem nested_codec_round_trip_witness:
  "flatten_convert (arrayToString doc_nested)
     = [(''title'', JStr ''Hello''), (''menu.file'', JStr ''File''),
        (''menu.edit.undo'', JStr ''Undo''), (''items'', JStr ''1 <sep />2 <sep /> 3 <sep /> 4'')]
   \<and> flatten_undo (flatten_convert (arrayToString doc_nested)) = arrayToString doc_nested
   \<and> foldl stringToArray_step (Inr (flatten_undo (flatten_convert (arrayToString doc_nested))))
        [''items''] = Inr doc_nested
   \<and> split (join [''1 <sep />2'', ''3'', ''4''] sepKey) sepKey = [''1 <sep />2'', ''3'', ''4'']
   \<and> stringToArray (flatten_undo (flatten_convert (arrayToString doc_flat))) = Inr doc_flat"
proof -
  have n: "codecDoc doc_nested" by code_simp
  have f: "codecDoc doc_flat" by code_simp
  have fl: "list_all (\<lambda>e. decodable (snd e)) doc_flat" by code_simp
  have k: "arrayKeys doc_nested = [''items'']" by code_simp
  have m: "(''items'', JArr [''1 <sep />2'', ''3'', ''4'']) \<in> set doc_nested"
    by (simp add: doc_nested_def)
  have c: "flatten_convert (arrayToString doc_nested)
     = [(''title'', JStr ''Hello''), (''menu.file'', JStr ''File''),
        (''menu.edit.undo'', JStr ''Undo''), (''items'', JStr ''1 <sep />2 <sep /> 3 <sep /> 4'')]"
    by code_simp
  from nested_codec_round_trip [OF n] nested_codec_round_trip [OF f] fl m c show ?thesis
    unfolding k by blast
qed

section \<open>A dry run without deletions\<close>

text \<open>
  The part of the dry run that holds for every working directory: when unused strings are
  not to be deleted and the fix directive is not given, a run with the service
  \<^verbatim>\<open>dryRun\<close> leaves every file as it is.
\<close>

lemma translateFile_dryRun:
  "disk (snd (translateFile del ''dryRun'' ts src l existing tf w)) = disk w"
  by (simp add: translateFile_def Let_def split: option.splits)

lemma translateFiles_dryRun:
  "disk (snd (translateFiles del ''dryRun'' ts src l existing tfs w)) = disk w"
proof (induction tfs arbitrary: w)
  case Nil
  then show ?case by simp
next
  case (Cons tf tfs)
  obtain r w1 where s: "translateFile del ''dryRun'' ts src l existing tf w = (r, w1)"
    by (cases "translateFile del ''dryRun'' ts src l existing tf w")
  then have "disk w1 = disk w" using translateFile_dryRun [of del ts src l existing tf w] by simp
  with Cons.IH [of w1] show ?case by (simp add: s split: option.splits)
qed

lemma translateLanguage_dryRun:
  "disk (snd (translateLanguage False ft ''dryRun'' ts src tfs l w)) = disk w"
proof -
  obtain existing w1 where ld: "loadTranslations l ft w = (existing, w1)"
    by (cases "loadTranslations l ft w")
  then have "disk w1 = disk w" using loadTranslations_frame(1) [of l ft w] by simp
  then show ?thesis
    by (simp add: translateLanguage_def ld translateFiles_dryRun)
qed

lemma translateLanguages_dryRun:
  "disk (snd (translateLanguages False ft ''dryRun'' ts src tfs ls w)) = disk w"
proof (induction ls arbitrary: w)
  case Nil
  then show ?case by simp
next
  case (Cons l ls)
  obtain r w1 where s: "translateLanguage False ft ''dryRun'' ts src tfs l w = (r, w1)"
    by (cases "translateLanguage False ft ''dryRun'' ts src tfs l w")
  then have "disk w1 = disk w" using translateLanguage_dryRun [of ft ts src tfs l w] by simp
  with Cons.IH [of w1] show ?case by (simp add: s split: option.splits)
qed

theorem dry_run_without_deletion_keeps_files:
  "disk (snd (translate serviceMap matcherMap src False ft False ''dryRun'' matcher w)) = disk w"
proof -
  obtain tfs w1 where ld: "loadTranslations src ft w = (tfs, w1)"
    by (cases "loadTranslations src ft w")
  then have "disk w1 = disk w" using loadTranslations_frame(1) [of src ft w] by simp
  then show ?thesis
    by (simp add: translate_def Let_def ld checkInconsistencies_def translateLanguages_dryRun
          split: option.splits)
qed

section \<open>Fixing inconsistencies\<close>

text \<open>
  The content that \<open>fixSourceInconsistencies\<close> writes for a natural file has no
  inconsistent key, and fixing it again gives the same content.
\<close>

lemma obj_set_same:
  "list_all (\<lambda>(k, v). v = JStr k) acc \<Longrightarrow> k \<in> fst ` set acc \<Longrightarrow> obj_set acc k (JStr k) = acc"
proof (induction acc)
  case Nil
  then show ?case by simp
next
  case (Cons e acc)
  obtain k' v where e: "e = (k', v)" by (cases e)
  show ?case
  proof (cases "k' = k")
    case True
    with Cons.prems show ?thesis by (simp add: e)
  next
    case False
    with Cons.prems have "k \<in> fst ` set acc" by (auto simp: e)
    with Cons show ?thesis using False by (simp add: e)
  qed
qed

lemma fix_step_consistent:
  "consistent acc \<Longrightarrow> consistent (obj_set acc k (JStr k))"
proof (cases "k \<in> fst ` set acc")
  case False
  assume "consistent acc"
  with False show ?thesis by (simp add: obj_set_append_new consistent_def)
next
  case True
  assume c: "consistent acc"
  have "obj_set acc k (JStr k) = acc"
    using c True unfolding consistent_def by (simp add: obj_set_same)
  with c show ?thesis by simp
qed

lemma fix_fold_consistent:
  "consistent acc \<Longrightarrow> consistent (foldl (\<lambda>acc cur. obj_set acc cur (JStr cur)) acc ks)"
  by (induction ks arbitrary: acc) (simp_all add: fix_step_consistent)

lemma fixedContent_consistent: "consistent (fixedContent c)"
  unfolding fixedContent_def by (rule fix_fold_consistent) (simp add: consistent_def)

lemma fix_fold_id:
  "consistent (pre @ todo) \<Longrightarrow>
     foldl (\<lambda>acc cur. obj_set acc cur (JStr cur)) pre (map fst todo) = pre @ todo"
proof (induction todo arbitrary: pre)
  case Nil
  then show ?case by simp
next
  case (Cons e todo)
  obtain k v where e: "e = (k, v)" by (cases e)
  from Cons.prems have v: "v = JStr k" and new: "k \<notin> fst ` set pre"
    by (auto simp: consistent_def e)
  from Cons.prems have "consistent ((pre @ [(k, v)]) @ todo)" by (simp add: e)
  from Cons.IH [OF this] show ?case
    unfolding e by (simp add: obj_set_append_new [OF new] v)
qed

lemma consistent_no_inconsistentKeys: "consistent obj \<Longrightarrow> inconsistentKeys obj = []"
proof -
  assume c: "consistent obj"
  have "obj_get obj k = Some (JStr k)" if "k \<in> set (object_keys obj)" for k
  proof -
    from that obtain v where m: "(k, v) \<in> set obj" by (auto simp: object_keys_def)
    with c have "v = JStr k" by (auto simp: consistent_def list_all_iff)
    with m c show ?thesis
      unfolding obj_get_def consistent_def by (auto intro: map_of_is_SomeI)
  qed
  then show ?thesis by (auto simp: inconsistentKeys_def filter_empty_conv)
qed

theorem fix_idempotent:
  "fixedContent (fixedContent c) = fixedContent c \<and> inconsistentKeys (fixedContent c) = []"
proof
  show "fixedContent (fixedContent c) = fixedContent c"
    using fix_fold_id [of "[]" "fixedContent c"] fixedContent_consistent [of c]
    by (simp add: fixedContent_def [of "fixedContent c"] object_keys_def)
  show "inconsistentKeys (fixedContent c) = []"
    using fixedContent_consistent by (rule consistent_no_inconsistentKeys)
qed

end
